theory Spec2Isabelle
  imports Main
begin

section \<open>The partition-boundary exchange of testmpi.py\<close>

text \<open>
  \<^verbatim>\<open>mpi_comm\<close> (src/testmpi.py) is the only function of the exchange whose body is in
  the sources. The branch run by the ranks \<open>1 .. num_parts\<close> is embedded here phase by
  phase. What it calls in the meshmode package (\<^verbatim>\<open>Discretization\<close>,
  \<^verbatim>\<open>make_face_restriction\<close>, \<^verbatim>\<open>make_partition_connection\<close>,
  \<^verbatim>\<open>check_connection\<close>) is not in the sources: those callees are arguments of
  the model, each free to raise.
\<close>

subsection \<open>Python values\<close>

datatype py_error = KeyError | IndexError | Raised string

text \<open>\<^verbatim>\<open>xs[i]\<close> on a list, for an index that is never negative here.\<close>

definition list_get :: "'a list \<Rightarrow> nat \<Rightarrow> py_error + 'a" where
  "list_get xs i = (if i < length xs then Inr (xs ! i) else Inl IndexError)"

text \<open>\<^verbatim>\<open>d[k]\<close> on a dict.\<close>

definition dict_get :: "('k \<rightharpoonup> 'v) \<Rightarrow> 'k \<Rightarrow> py_error + 'v" where
  "dict_get d k = (case d k of None \<Rightarrow> Inl KeyError | Some v \<Rightarrow> Inr v)"

text \<open>A list comprehension \<^verbatim>\<open>[f(x) for x in xs]\<close> whose body may raise.\<close>

fun comprehension :: "('x \<Rightarrow> py_error + 'y) \<Rightarrow> 'x list \<Rightarrow> py_error + 'y list" where
  "comprehension f [] = Inr []"
| "comprehension f (x # xs) =
     (case f x of
        Inl e \<Rightarrow> Inl e
      | Inr y \<Rightarrow> (case comprehension f xs of Inl e \<Rightarrow> Inl e | Inr ys \<Rightarrow> Inr (y # ys)))"

subsection \<open>The objects mpi\_comm reads\<close>

text \<open>
  Only the attributes that \<^verbatim>\<open>mpi_comm\<close> reads are fields. \<open>'g\<close> is an element
  group and \<open>'a\<close> a facial adjacency group; the function never looks inside either.
  \<open>facial_adjacency_groups\<close> is a list of dicts, read at the key \<^verbatim>\<open>None\<close>.
\<close>

record ('g, 'a) mesh =
  groups :: "'g list"
  facial_adjacency_groups :: "(nat option \<rightharpoonup> 'a) list"

text \<open>\<open>nodes_size\<close> is \<^verbatim>\<open>discr.nodes().size\<close>.\<close>

record ('g, 'a) discretization =
  discr_mesh :: "('g, 'a) mesh"
  nodes_size :: nat

record batch =
  to_element_face :: nat
  to_element_indices :: "nat list"

text \<open>
  The value of \<^verbatim>\<open>make_face_restriction\<close>; \<open>group_batches ! i\<close> is
  \<^verbatim>\<open>conn.groups[i].batches\<close>.
\<close>

record ('g, 'a) face_restriction =
  to_discr :: "('g, 'a) discretization"
  group_batches :: "batch list list"

datatype btag = BTAG_PARTITION nat

text \<open>The dict \<^verbatim>\<open>local_data\<close> of line 82.\<close>

record ('g, 'a) local_data =
  bdry_mesh :: "('g, 'a) mesh"
  adj :: "'a list"
  to_elem_faces :: "nat list list"
  to_elem_indices :: "nat list list list"

text \<open>
  A message handed to \<^verbatim>\<open>comm.isend\<close>. The payload \<open>None\<close> is Python's
  \<^verbatim>\<open>None\<close>, the signal that the two partitions share no boundary.
\<close>

record ('g, 'a) message =
  payload :: "('g, 'a) local_data option"
  dest :: nat
  tag :: nat

text \<open>The callees that are not in the sources; \<open>'c\<close> is a partition connection.\<close>

record ('g, 'a, 'c) meshmode =
  Discretization :: "('g, 'a) mesh \<Rightarrow> py_error + ('g, 'a) discretization"
  make_face_restriction ::
    "('g, 'a) discretization \<Rightarrow> btag \<Rightarrow> py_error + ('g, 'a) face_restriction"
  make_partition_connection ::
    "('g, 'a) face_restriction \<Rightarrow> nat \<Rightarrow> ('g, 'a) discretization \<Rightarrow> 'a list \<Rightarrow>
       nat list list \<Rightarrow> nat list list list \<Rightarrow> py_error + 'c"
  check_connection :: "'c \<Rightarrow> py_error option"

subsection \<open>Lines 48 to 57: the local boundary connections\<close>

fun make_local_bdry_conns ::
  "('g, 'a, 'c) meshmode \<Rightarrow> ('g, 'a) discretization \<Rightarrow> nat \<Rightarrow> nat list \<Rightarrow>
     (nat \<rightharpoonup> ('g, 'a) face_restriction) \<Rightarrow>
     py_error + (nat \<rightharpoonup> ('g, 'a) face_restriction)" where
  "make_local_bdry_conns lib vol_discr i_local_part [] local_bdry_conns =
     Inr local_bdry_conns"
| "make_local_bdry_conns lib vol_discr i_local_part (i_remote_part # rest) local_bdry_conns =
     (if i_local_part = i_remote_part
      then make_local_bdry_conns lib vol_discr i_local_part rest local_bdry_conns
      else (case make_face_restriction lib vol_discr (BTAG_PARTITION i_remote_part) of
              Inl e \<Rightarrow> Inl e
            | Inr conn \<Rightarrow>
                make_local_bdry_conns lib vol_discr i_local_part rest
                  (local_bdry_conns(i_remote_part \<mapsto> conn))))"

subsection \<open>Lines 59 to 86: sending the boundary data\<close>

text \<open>Lines 71 to 85, the bundle for a remote partition that does share a boundary.\<close>

definition gather_local_data ::
  "('g, 'a) mesh \<Rightarrow> ('g, 'a) face_restriction \<Rightarrow> py_error + ('g, 'a) local_data" where
  "gather_local_data local_mesh conn =
     (case comprehension
             (\<lambda>i. case list_get (facial_adjacency_groups local_mesh) i of
                     Inl e \<Rightarrow> Inl e
                   | Inr d \<Rightarrow> dict_get d None)
             [0 ..< length (groups local_mesh)] of
        Inl e \<Rightarrow> Inl e
      | Inr local_adj_groups \<Rightarrow>
          (case comprehension (list_get (group_batches conn))
                  [0 ..< length (groups local_mesh)] of
             Inl e \<Rightarrow> Inl e
           | Inr local_batches \<Rightarrow>
               Inr \<lparr>bdry_mesh = discr_mesh (to_discr conn),
                    adj = local_adj_groups,
                    to_elem_faces = map (map to_element_face) local_batches,
                    to_elem_indices = map (map to_element_indices) local_batches\<rparr>))"

text \<open>
  The loop of line 61. It returns the messages handed to \<^verbatim>\<open>isend\<close> so far and the
  exception that ended the loop, if one did: a message sent before an exception stays
  sent.
\<close>

fun send_loop ::
  "('g, 'a) mesh \<Rightarrow> (nat \<rightharpoonup> ('g, 'a) face_restriction) \<Rightarrow> nat \<Rightarrow> nat list \<Rightarrow>
     ('g, 'a) message list \<Rightarrow> ('g, 'a) message list \<times> py_error option" where
  "send_loop local_mesh local_bdry_conns i_local_part [] sent = (sent, None)"
| "send_loop local_mesh local_bdry_conns i_local_part (i_remote_part # rest) sent =
     (if i_local_part = i_remote_part
      then send_loop local_mesh local_bdry_conns i_local_part rest sent
      else (case dict_get local_bdry_conns i_remote_part of
              Inl e \<Rightarrow> (sent, Some e)
            | Inr conn \<Rightarrow>
                if nodes_size (to_discr conn) = 0
                then send_loop local_mesh local_bdry_conns i_local_part rest
                       (sent @ [\<lparr>payload = None, dest = i_remote_part + 1, tag = 2\<rparr>])
                else (case gather_local_data local_mesh conn of
                        Inl e \<Rightarrow> (sent, Some e)
                      | Inr local_data \<Rightarrow>
                          send_loop local_mesh local_bdry_conns i_local_part rest
                            (sent @ [\<lparr>payload = Some local_data,
                                      dest = i_remote_part + 1, tag = 2\<rparr>]))))"

definition send_boundary_data ::
  "('g, 'a) mesh \<Rightarrow> (nat \<rightharpoonup> ('g, 'a) face_restriction) \<Rightarrow> nat \<Rightarrow> nat \<Rightarrow>
     ('g, 'a) message list \<times> py_error option" where
  "send_boundary_data local_mesh local_bdry_conns i_local_part num_parts =
     send_loop local_mesh local_bdry_conns i_local_part [0 ..< num_parts] []"

subsection \<open>Lines 88 to 99: receiving\<close>

text \<open>
  \<^verbatim>\<open>comm.recv(source, tag)\<close> at the rank \<open>me\<close>, given what the source rank has
  sent: the first message of the source for this rank and tag. The outer \<open>None\<close> is a
  receive that never returns, because no such message was sent. A rank receives once
  from each source under tag 2, so no message has to be taken out of the list.
\<close>

fun comm_recv :: "('g, 'a) message list \<Rightarrow> nat \<Rightarrow> nat \<Rightarrow> ('g, 'a) local_data option option" where
  "comm_recv [] me t = None"
| "comm_recv (m # ms) me t =
     (if dest m = me \<and> tag m = t then Some (payload m) else comm_recv ms me t)"

text \<open>
  The loop of line 90; \<open>sent_by r\<close> is what the rank \<open>r\<close> has sent. The result is the
  dict \<^verbatim>\<open>remote_data\<close> in insertion order, or \<open>None\<close> when a receive blocks.
\<close>

fun recv_loop ::
  "(nat \<Rightarrow> ('g, 'a) message list) \<Rightarrow> nat \<Rightarrow> nat list \<Rightarrow>
     (nat \<times> ('g, 'a) local_data option) list \<Rightarrow>
     (nat \<times> ('g, 'a) local_data option) list option" where
  "recv_loop sent_by i_local_part [] remote_data = Some remote_data"
| "recv_loop sent_by i_local_part (i_remote_part # rest) remote_data =
     (if i_local_part = i_remote_part
      then recv_loop sent_by i_local_part rest remote_data
      else (case comm_recv (sent_by (i_remote_part + 1)) (i_local_part + 1) 2 of
              None \<Rightarrow> None
            | Some data \<Rightarrow>
                recv_loop sent_by i_local_part rest (remote_data @ [(i_remote_part, data)])))"

subsection \<open>Lines 104 to 122: connecting to the remote partitions\<close>

text \<open>
  The loop over \<^verbatim>\<open>remote_data.items()\<close>. The source keeps each connection in a
  local variable only; the model returns the connections it built and checked, with
  the partition each belongs to, so that a theorem can say which were built.
\<close>

fun connect_loop ::
  "('g, 'a, 'c) meshmode \<Rightarrow> (nat \<rightharpoonup> ('g, 'a) face_restriction) \<Rightarrow> nat \<Rightarrow>
     (nat \<times> ('g, 'a) local_data option) list \<Rightarrow> (nat \<times> 'c) list \<Rightarrow>
     py_error + (nat \<times> 'c) list" where
  "connect_loop lib local_bdry_conns i_local_part [] built = Inr built"
| "connect_loop lib local_bdry_conns i_local_part ((i_remote_part, None) # rest) built =
     connect_loop lib local_bdry_conns i_local_part rest built"
| "connect_loop lib local_bdry_conns i_local_part ((i_remote_part, Some data) # rest) built =
     (case Discretization lib (bdry_mesh data) of
        Inl e \<Rightarrow> Inl e
      | Inr remote_bdry \<Rightarrow>
          (case dict_get local_bdry_conns i_remote_part of
             Inl e \<Rightarrow> Inl e
           | Inr conn \<Rightarrow>
               (case make_partition_connection lib conn i_local_part remote_bdry
                       (adj data) (to_elem_faces data) (to_elem_indices data) of
                  Inl e \<Rightarrow> Inl e
                | Inr connection \<Rightarrow>
                    (case check_connection lib connection of
                       Some e \<Rightarrow> Inl e
                     | None \<Rightarrow>
                         connect_loop lib local_bdry_conns i_local_part rest
                           (built @ [(i_remote_part, connection)])))))"

subsection \<open>The branch of a rank that owns a partition\<close>

datatype 'c outcome = Finished "(nat \<times> 'c) list" | Failed py_error | Blocked

text \<open>
  Lines 44 to 86 for the rank \<open>i_local_part + 1\<close>: everything it hands to
  \<^verbatim>\<open>isend\<close>, whatever happens to it afterwards.
\<close>

definition rank_sends ::
  "('g, 'a, 'c) meshmode \<Rightarrow> ('g, 'a) mesh \<Rightarrow> nat \<Rightarrow> nat \<Rightarrow> ('g, 'a) message list" where
  "rank_sends lib local_mesh i_local_part num_parts =
     (case Discretization lib local_mesh of
        Inl e \<Rightarrow> []
      | Inr vol_discr \<Rightarrow>
          (case make_local_bdry_conns lib vol_discr i_local_part [0 ..< num_parts] Map.empty of
             Inl e \<Rightarrow> []
           | Inr local_bdry_conns \<Rightarrow>
               fst (send_boundary_data local_mesh local_bdry_conns i_local_part num_parts)))"

text \<open>
  Lines 44 to 122 for the rank \<open>i_local_part + 1\<close>, where \<open>local_mesh_of i\<close> is the
  partition that the rank \<open>i + 1\<close> received from rank 0 (line 34).
\<close>

definition rank_main ::
  "('g, 'a, 'c) meshmode \<Rightarrow> (nat \<Rightarrow> ('g, 'a) mesh) \<Rightarrow> nat \<Rightarrow> nat \<Rightarrow> 'c outcome" where
  "rank_main lib local_mesh_of i_local_part num_parts =
     (case Discretization lib (local_mesh_of i_local_part) of
        Inl e \<Rightarrow> Failed e
      | Inr vol_discr \<Rightarrow>
          (case make_local_bdry_conns lib vol_discr i_local_part [0 ..< num_parts] Map.empty of
             Inl e \<Rightarrow> Failed e
           | Inr local_bdry_conns \<Rightarrow>
               (case send_boundary_data (local_mesh_of i_local_part) local_bdry_conns
                       i_local_part num_parts of
                  (sent, Some e) \<Rightarrow> Failed e
                | (sent, None) \<Rightarrow>
                    (case recv_loop
                            (\<lambda>r. rank_sends lib (local_mesh_of (r - 1)) (r - 1) num_parts)
                            i_local_part [0 ..< num_parts] [] of
                       None \<Rightarrow> Blocked
                     | Some remote_data \<Rightarrow>
                         (case connect_loop lib local_bdry_conns i_local_part remote_data [] of
                            Inl e \<Rightarrow> Failed e
                          | Inr built \<Rightarrow> Finished built)))))"

section \<open>Facial adjacency\<close>

text \<open>
  The Adjacency Builder is code of the meshmode package and not in the sources, which
  only read \<^verbatim>\<open>mesh.facial_adjacency_groups\<close>. This section models it from sections
  3 and 4.2 of the specification.
\<close>

text \<open>
  Modelled from the spec: the boundary tag of a Facial Adjacency record: exterior, a
  specific partition id, or a user tag.
\<close>

datatype boundary_tag = Exterior | Partition_id nat | User_tag string

text \<open>
  Modelled from the spec: the fatal topology errors of section 4.2: a vertex-index set
  shared by more than two faces, and two matching faces of different sizes. The spec
  leaves open what happens to a group that breaks the invariant of section 3 (a face
  layout that points outside an element's vertex tuple); the model refuses it with
  \<open>Malformed_element_group\<close> and never reads a tuple out of range.
\<close>

datatype topology_error = Malformed_element_group | Degenerate_face | Mismatched_face_sizes

text \<open>
  Modelled from the spec: the Element Group, as far as facial adjacency reads it: the
  vertex-index tuple of each element, and the face-vertex layout of the group's
  reference cell, which gives for each local face the positions of its vertices in an
  element's tuple.
\<close>

record element_group =
  vertex_indices :: "nat list list"
  face_vertex_indices :: "nat list list"

text \<open>A face of the mesh: group, element within the group, local face.\<close>

type_synonym face_ref = "nat \<times> nat \<times> nat"

text \<open>
  Modelled from the spec: what a Facial Adjacency record holds for a face: the
  neighbouring group, element and local face, or a boundary tag.
\<close>

datatype neighbor = Interior face_ref | Boundary boundary_tag

text \<open>
  Modelled from the spec: the map from a vertex-index set to the list of its
  occurrences, each with the size of the face's vertex tuple.
\<close>

type_synonym face_map = "nat set \<rightharpoonup> (face_ref \<times> nat) list"

text \<open>
  Modelled from the spec: the invariant of an Element Group that every vertex-index
  tuple has the cell's number of vertices, so that every position of the face layout
  is inside the tuple.
\<close>

definition group_ok :: "element_group \<Rightarrow> bool" where
  "group_ok grp =
     list_all (\<lambda>vs. list_all (list_all (\<lambda>p. p < length vs)) (face_vertex_indices grp))
       (vertex_indices grp)"

text \<open>Modelled from the spec: the vertex indices of a face, in the layout's order.\<close>

definition face_vertex_tuple :: "element_group list \<Rightarrow> face_ref \<Rightarrow> nat list" where
  "face_vertex_tuple grps r =
     (case r of (g, e, f) \<Rightarrow>
        map (\<lambda>p. vertex_indices (grps ! g) ! e ! p) (face_vertex_indices (grps ! g) ! f))"

text \<open>
  Modelled from the spec: every local face of every element of every group, in group
  order (``for each element, for each local face'').
\<close>

definition all_faces :: "element_group list \<Rightarrow> face_ref list" where
  "all_faces grps =
     concat (map (\<lambda>g.
       concat (map (\<lambda>e.
         map (\<lambda>f. (g, e, f)) [0 ..< length (face_vertex_indices (grps ! g))])
         [0 ..< length (vertex_indices (grps ! g))]))
       [0 ..< length grps])"

text \<open>
  Modelled from the spec: one step of building the map: the face is filed under the set
  of its vertex indices, whatever their order in the tuple.
\<close>

definition add_face :: "element_group list \<Rightarrow> face_ref \<Rightarrow> face_map \<Rightarrow> face_map" where
  "add_face grps r m =
     (let fv = face_vertex_tuple grps r in
      m(set fv \<mapsto> (case m (set fv) of None \<Rightarrow> [] | Some occs \<Rightarrow> occs) @ [(r, length fv)]))"

text \<open>Modelled from the spec: the map from vertex-index set to occurrences.\<close>

definition build_face_map :: "element_group list \<Rightarrow> face_ref list \<Rightarrow> face_map" where
  "build_face_map grps faces = fold (add_face grps) faces Map.empty"

text \<open>
  Modelled from the spec: the record of one face. A set that occurs once is a boundary
  face, tagged exterior; a set that occurs twice is an interior match with the other
  occurrence; more than two occurrences, or two faces of different sizes, are a fatal
  topology error.
\<close>

definition face_record ::
  "element_group list \<Rightarrow> face_map \<Rightarrow> face_ref \<Rightarrow> topology_error + (face_ref \<times> neighbor)" where
  "face_record grps m r =
     (case m (set (face_vertex_tuple grps r)) of
        Some [(r1, n1)] \<Rightarrow> Inr (r, Boundary Exterior)
      | Some [(r1, n1), (r2, n2)] \<Rightarrow>
          if n1 \<noteq> n2 then Inl Mismatched_face_sizes
          else Inr (r, Interior (if r = r1 then r2 else r1))
      | _ \<Rightarrow> Inl Degenerate_face)"

text \<open>Modelled from the spec: the records of a list of faces; the first error is fatal.\<close>

fun face_records ::
  "element_group list \<Rightarrow> face_map \<Rightarrow> face_ref list \<Rightarrow>
     topology_error + (face_ref \<times> neighbor) list" where
  "face_records grps m [] = Inr []"
| "face_records grps m (r # rs) =
     (case face_record grps m r of
        Inl e \<Rightarrow> Inl e
      | Inr x \<Rightarrow> (case face_records grps m rs of Inl e \<Rightarrow> Inl e | Inr xs \<Rightarrow> Inr (x # xs)))"

text \<open>
  Modelled from the spec: the facial adjacency of a mesh, computed from the element
  groups alone: the Facial Adjacency records of all groups, or a topology error.
\<close>

definition facial_adjacency ::
  "element_group list \<Rightarrow> topology_error + (face_ref \<times> neighbor) list" where
  "facial_adjacency grps =
     (if \<not> list_all group_ok grps then Inl Malformed_element_group
      else face_records grps (build_face_map grps (all_faces grps)) (all_faces grps))"

text \<open>
  The occurrences of a vertex-index set among a list of faces, in the list's order:
  what the map holds under that key, as \<open>build_face_map_lookup\<close> shows.
\<close>

definition occurrences ::
  "element_group list \<Rightarrow> face_ref list \<Rightarrow> nat set \<Rightarrow> (face_ref \<times> nat) list" where
  "occurrences grps faces k =
     map (\<lambda>r. (r, length (face_vertex_tuple grps r)))
       (filter (\<lambda>r. set (face_vertex_tuple grps r) = k) faces)"

section \<open>Properties of the exchange\<close>

subsection \<open>The send loop\<close>

text \<open>The messages already sent are a prefix of the result, whatever the loop does next.\<close>

lemma send_loop_acc:
  "send_loop m c a ps sent =
     (sent @ fst (send_loop m c a ps []), snd (send_loop m c a ps []))"
proof (induction ps arbitrary: sent)
  case Nil
  then show ?case by simp
next
  case (Cons i ps)
  show ?case
    using Cons.IH [of "sent @ [x]" for x] Cons.IH [of "[x]" for x] Cons.IH [of sent]
    by (auto split: sum.splits)
qed

lemma send_loop_Cons:
  "send_loop m c a (i # ps) [] =
     (if a = i then send_loop m c a ps []
      else (case dict_get c i of
              Inl e \<Rightarrow> ([], Some e)
            | Inr conn \<Rightarrow>
                if nodes_size (to_discr conn) = 0
                then (\<lparr>payload = None, dest = i + 1, tag = 2\<rparr> # fst (send_loop m c a ps []),
                      snd (send_loop m c a ps []))
                else (case gather_local_data m conn of
                        Inl e \<Rightarrow> ([], Some e)
                      | Inr d \<Rightarrow>
                          (\<lparr>payload = Some d, dest = i + 1, tag = 2\<rparr> # fst (send_loop m c a ps []),
                           snd (send_loop m c a ps [])))))"
  using send_loop_acc [of m c a ps "[x]" for x]
  by (simp split: sum.splits)

lemma send_loop_payload:
  assumes "c b = Some conn" and "nodes_size (to_discr conn) = 0"
  shows "list_all (\<lambda>msg. payload msg = None \<and> tag msg = 2)
           (filter (\<lambda>msg. dest msg = b + 1) (fst (send_loop m c a ps [])))"
proof (induction ps)
  case Nil
  then show ?case by simp
next
  case (Cons i ps)
  show ?case
    using Cons assms
    by (auto simp: send_loop_Cons dict_get_def simp del: send_loop.simps split: sum.splits option.splits)
qed

lemma send_loop_complete:
  assumes "snd (send_loop m c a ps []) = None" and "b \<in> set ps" and "b \<noteq> a"
  shows "\<exists>msg \<in> set (fst (send_loop m c a ps [])). dest msg = b + 1 \<and> tag msg = 2"
  using assms
proof (induction ps)
  case Nil
  then show ?case by simp
next
  case (Cons i ps)
  then show ?case
    by (auto simp: send_loop_Cons dict_get_def simp del: send_loop.simps split: sum.splits option.splits if_splits)
qed

lemma comm_recv_None:
  assumes "list_all (\<lambda>msg. payload msg = None \<and> tag msg = t) (filter (\<lambda>msg. dest msg = me) ms)"
    and "\<exists>msg \<in> set ms. dest msg = me \<and> tag msg = t"
  shows "comm_recv ms me t = Some None"
  using assms by (induction ms) (auto split: if_splits)

lemma comm_recv_sent:
  "comm_recv ms me t = Some p \<Longrightarrow> \<exists>msg \<in> set ms. dest msg = me \<and> tag msg = t \<and> payload msg = p"
  by (induction ms) (auto split: if_splits)

lemma connect_loop_skip:
  "connect_loop lib conns b (before @ (a, None) # after) built =
     connect_loop lib conns b (before @ after) built"
proof (induction before arbitrary: built)
  case Nil
  show ?case by simp
next
  case (Cons p before)
  obtain i d where p: "p = (i, d)" by (cases p)
  show ?case
    by (cases d) (simp_all add: p Cons.IH split: sum.splits option.splits)
qed

subsection \<open>A rank that owns a partition, end to end\<close>

lemma make_local_bdry_conns_lookup:
  assumes "make_local_bdry_conns lib vd a ps acc = Inr conns" and "i \<in> set ps" and "i \<noteq> a"
  shows "\<exists>c. conns i = Some c \<and> make_face_restriction lib vd (BTAG_PARTITION i) = Inr c"
  using assms
proof (induction ps arbitrary: acc)
  case Nil
  then show ?case by simp
next
  case (Cons j ps)
  have keep: "make_local_bdry_conns lib vd a js acc' = Inr conns \<Longrightarrow> i \<notin> set js \<Longrightarrow>
      conns i = acc' i" for js acc'
    by (induction js arbitrary: acc') (auto split: if_splits sum.splits)
  show ?case
  proof (cases "i \<in> set ps")
    case True
    with Cons show ?thesis by (auto split: if_splits sum.splits)
  next
    case False
    with Cons.prems have ij: "j = i" by simp
    with Cons.prems obtain c where c: "make_face_restriction lib vd (BTAG_PARTITION i) = Inr c"
      and r: "make_local_bdry_conns lib vd a ps (acc(i \<mapsto> c)) = Inr conns"
      by (auto split: sum.splits)
    from keep [OF r False] c show ?thesis by simp
  qed
qed

lemma recv_loop_entries:
  assumes "recv_loop sb b ps acc = Some rd" and "(i, d) \<in> set rd"
  shows "(i, d) \<in> set acc \<or> (i \<noteq> b \<and> comm_recv (sb (i + 1)) (b + 1) 2 = Some d)"
  using assms
proof (induction ps arbitrary: acc)
  case Nil
  then show ?case by simp
next
  case (Cons j ps)
  show ?case
  proof (cases "b = j")
    case True
    with Cons show ?thesis by simp
  next
    case False
    with Cons.prems obtain x where x: "comm_recv (sb (j + 1)) (b + 1) 2 = Some x"
      and r: "recv_loop sb b ps (acc @ [(j, x)]) = Some rd"
      by (auto split: option.splits)
    from Cons.IH [OF r Cons.prems(2)] x False show ?thesis by auto
  qed
qed

lemma connect_loop_built:
  assumes "connect_loop lib conns b rd built = Inr built'" and "i \<in> fst ` set built'"
  shows "i \<in> fst ` set built \<or> (\<exists>d. (i, Some d) \<in> set rd)"
  using assms
proof (induction rd arbitrary: built)
  case Nil
  then show ?case by simp
next
  case (Cons p rd)
  obtain j d where p: "p = (j, d)" by (cases p)
  show ?case
  proof (cases d)
    case None
    with Cons p show ?thesis by auto
  next
    case (Some x)
    with Cons.prems p obtain c where
      "connect_loop lib conns b rd (built @ [(j, c)]) = Inr built'"
      by (auto split: sum.splits option.splits)
    from Cons.IH [OF this Cons.prems(2)] show ?thesis
      using p Some by auto
  qed
qed

text \<open>
  Line 122: every connection that the loop keeps has passed \<^verbatim>\<open>check_connection\<close>;
  a failing check ends the rank with the exception.
\<close>

lemma connect_loop_validates:
  assumes "connect_loop lib conns b rd built = Inr built'"
    and "\<forall>x \<in> set built. check_connection lib (snd x) = None"
  shows "\<forall>x \<in> set built'. check_connection lib (snd x) = None"
  using assms
proof (induction rd arbitrary: built)
  case Nil
  then show ?case by simp
next
  case (Cons p rd)
  obtain j d where p: "p = (j, d)" by (cases p)
  show ?case
  proof (cases d)
    case None
    with Cons p show ?thesis by auto
  next
    case (Some x)
    with Cons.prems p obtain c where
      r: "connect_loop lib conns b rd (built @ [(j, c)]) = Inr built'"
      and c: "check_connection lib c = None"
      by (auto split: sum.splits option.splits)
    show ?thesis
      by (rule Cons.IH [OF r]) (use Cons.prems(2) c in auto)
  qed
qed

text \<open>
  When the boundary connection of partition \<open>a\<close> for partition \<open>b\<close> has no nodes and
  the rank of \<open>b\<close> runs to its end, that rank has built no connection to \<open>a\<close>.
\<close>

lemma rank_main_skips_partition_without_boundary:
  assumes "a \<noteq> b" and "a < num_parts" and "b < num_parts"
    and vd: "Discretization lib (local_mesh_of a) = Inr vol_discr"
    and conn: "make_face_restriction lib vol_discr (BTAG_PARTITION b) = Inr conn"
    and empty: "nodes_size (to_discr conn) = 0"
    and fin: "rank_main lib local_mesh_of b num_parts = Finished built"
  shows "a \<notin> fst ` set built"
proof
  assume "a \<in> fst ` set built"
  let ?sb = "\<lambda>r. rank_sends lib (local_mesh_of (r - 1)) (r - 1) num_parts"
  from fin obtain conns_b rd where
    rd: "recv_loop ?sb b [0 ..< num_parts] [] = Some rd"
    and built: "connect_loop lib conns_b b rd [] = Inr built"
    by (auto simp: rank_main_def split: sum.splits option.splits prod.splits)
  from connect_loop_built [OF built \<open>a \<in> fst ` set built\<close>]
  obtain d where "(a, Some d) \<in> set rd" by auto
  from recv_loop_entries [OF rd this]
  have got: "comm_recv (rank_sends lib (local_mesh_of a) a num_parts) (b + 1) 2 = Some (Some d)"
    by simp
  then have "rank_sends lib (local_mesh_of a) a num_parts \<noteq> []" by auto
  then obtain conns_a where
    conns_a: "make_local_bdry_conns lib vol_discr a [0 ..< num_parts] Map.empty = Inr conns_a"
    and sends: "rank_sends lib (local_mesh_of a) a num_parts =
      fst (send_loop (local_mesh_of a) conns_a a [0 ..< num_parts] [])"
    using vd by (auto simp: rank_sends_def send_boundary_data_def split: sum.splits)
  from make_local_bdry_conns_lookup [OF conns_a, of b] assms(1,3) conn
  have "conns_a b = Some conn" by auto
  from send_loop_payload [where c = conns_a and b = b and m = "local_mesh_of a" and a = a
      and ps = "[0 ..< num_parts]", OF this empty] got
  show False
    unfolding sends by (auto simp: list_all_iff dest!: comm_recv_sent)
qed

subsection \<open>The signal for two partitions without a shared boundary\<close>

text \<open>
  Claim C8. Let the rank of partition \<open>a\<close> hold, for the remote partition \<open>b\<close>, a
  boundary connection whose target discretization has no nodes
  (\<^verbatim>\<open>bdry_nodes.size == 0\<close>, line 65). Then every message it hands to
  \<^verbatim>\<open>isend\<close> for the rank \<open>b + 1\<close> carries \<^verbatim>\<open>None\<close> under tag 2 and no
  boundary data; when its send loop ends without an exception, the receive of rank
  \<open>b + 1\<close> for that source and tag returns \<^verbatim>\<open>None\<close>. On the receiving side
  (lines 104 to 107), an entry \<^verbatim>\<open>None\<close> of \<^verbatim>\<open>remote_data\<close> is passed over:
  the loop goes on as if the entry were not there, so no connection is built for
  that partition and no exception comes from it.
\<close>

theorem no_shared_boundary_signal:
  assumes "a \<noteq> b" and "b < num_parts"
    and "local_bdry_conns b = Some conn" and "nodes_size (to_discr conn) = 0"
    and "send_boundary_data local_mesh local_bdry_conns a num_parts = (sent, err)"
  shows "list_all (\<lambda>msg. payload msg = None \<and> tag msg = 2)
           (filter (\<lambda>msg. dest msg = b + 1) sent) \<and>
         (err = None \<longrightarrow> comm_recv sent (b + 1) 2 = Some None) \<and>
         (\<forall>lib conns before after built.
            connect_loop lib conns b (before @ (a, None) # after) built =
              connect_loop lib conns b (before @ after) built)"
proof -
  have sent: "sent = fst (send_loop local_mesh local_bdry_conns a [0 ..< num_parts] [])"
    and err: "err = snd (send_loop local_mesh local_bdry_conns a [0 ..< num_parts] [])"
    using assms(5) by (simp_all add: send_boundary_data_def)
  have 1: "list_all (\<lambda>msg. payload msg = None \<and> tag msg = 2)
             (filter (\<lambda>msg. dest msg = b + 1) sent)"
    unfolding sent using assms(3,4) by (rule send_loop_payload)
  have 2: "comm_recv sent (b + 1) 2 = Some None" if "err = None"
  proof -
    have "\<exists>msg \<in> set sent. dest msg = b + 1 \<and> tag msg = 2"
      unfolding sent using that assms(1,2) by (intro send_loop_complete) (simp_all add: err)
    with 1 show ?thesis by (rule comm_recv_None)
  qed
  from 1 2 connect_loop_skip show ?thesis by blast
qed

text \<open>
  Two partitions: partition 0 has no boundary with partition 1, sends
  \<^verbatim>\<open>None\<close> to rank 2, and rank 2 builds nothing from it.
\<close>

theorem no_shared_boundary_signal_witness:
  "(0::nat) \<noteq> 1 \<and> (1::nat) < 2 \<and>
   comm_recv
     (fst (send_boundary_data \<lparr>groups = [()], facial_adjacency_groups = [Map.empty :: nat option \<Rightarrow> unit option]\<rparr>
        [1 \<mapsto> \<lparr>to_discr = \<lparr>discr_mesh = \<lparr>groups = [], facial_adjacency_groups = []\<rparr>, nodes_size = 0\<rparr>,
                group_batches = [[]]\<rparr>] 0 2)) 2 2 = Some None \<and>
   connect_loop \<lparr>Discretization = (\<lambda>m. Inr \<lparr>discr_mesh = m, nodes_size = 0\<rparr>),
                  make_face_restriction = (\<lambda>d t. Inl KeyError),
                  make_partition_connection = (\<lambda>c i d a f e. Inl (KeyError) :: py_error + unit),
                  check_connection = (\<lambda>c. None)\<rparr>
     (Map.empty :: nat \<Rightarrow> (unit, unit) face_restriction option) 1 [(0, None)] [] = Inr []"
proof -
  let ?m = "\<lparr>groups = [()], facial_adjacency_groups = [Map.empty :: nat option \<Rightarrow> unit option]\<rparr>"
  let ?conn = "\<lparr>to_discr = \<lparr>discr_mesh = \<lparr>groups = [], facial_adjacency_groups = []\<rparr>, nodes_size = 0\<rparr>,
                group_batches = [[]]\<rparr> :: (unit, unit) face_restriction"
  let ?c = "[1 \<mapsto> ?conn]"
  have s: "send_boundary_data ?m ?c 0 2 =
      ([\<lparr>payload = None, dest = 2, tag = 2\<rparr>], None)"
    by (simp add: send_boundary_data_def dict_get_def upt_rec)
  have h: "(0::nat) \<noteq> 1" "(1::nat) < 2" "?c 1 = Some ?conn" "nodes_size (to_discr ?conn) = 0"
    by simp_all
  show ?thesis
    unfolding s using no_shared_boundary_signal [OF h s, THEN conjunct2]
    by simp
qed

section \<open>Properties of the facial adjacency\<close>

lemma distinct_concat_map:
  assumes "distinct xs"
    and "\<And>x. x \<in> set xs \<Longrightarrow> distinct (f x)"
    and "\<And>x y. x \<in> set xs \<Longrightarrow> y \<in> set xs \<Longrightarrow> x \<noteq> y \<Longrightarrow> set (f x) \<inter> set (f y) = {}"
  shows "distinct (concat (map f xs))"
  using assms
proof (induction xs)
  case Nil
  then show ?case by simp
next
  case (Cons x xs)
  have "set (f x) \<inter> set (f y) = {}" if "y \<in> set xs" for y
    using Cons.prems(1) that by (intro Cons.prems(3)) auto
  moreover have "distinct (concat (map f xs))"
    using Cons.prems by (intro Cons.IH) auto
  ultimately show ?case using Cons.prems(2) [of x] by auto
qed

lemma distinct_all_faces: "distinct (all_faces grps)"
  unfolding all_faces_def
  by (intro distinct_concat_map) (auto simp: distinct_map inj_on_def)

lemma set_all_faces:
  "set (all_faces grps) =
     {(g, e, f). g < length grps \<and> e < length (vertex_indices (grps ! g)) \<and>
        f < length (face_vertex_indices (grps ! g))}"
  unfolding all_faces_def by (auto simp: image_iff)

lemma fold_add_face:
  "fold (add_face grps) faces m k =
     (if occurrences grps faces k = [] then m k
      else Some ((case m k of None \<Rightarrow> [] | Some occs \<Rightarrow> occs) @ occurrences grps faces k))"
proof (induction faces arbitrary: m)
  case Nil
  show ?case by (simp add: occurrences_def)
next
  case (Cons r faces)
  have step: "add_face grps r m k =
      (if set (face_vertex_tuple grps r) = k
       then Some ((case m k of None \<Rightarrow> [] | Some occs \<Rightarrow> occs) @
              [(r, length (face_vertex_tuple grps r))])
       else m k)"
    by (auto simp: add_face_def Let_def)
  show ?case
    by (simp add: Cons.IH step) (simp add: occurrences_def)
qed

lemma build_face_map_lookup:
  "build_face_map grps faces k =
     (if occurrences grps faces k = [] then None else Some (occurrences grps faces k))"
  by (simp add: build_face_map_def fold_add_face)

lemma face_records_map:
  assumes "face_records grps m rs = Inr recs"
  shows "map fst recs = rs \<and> (\<forall>x \<in> set recs. face_record grps m (fst x) = Inr x)"
  using assms
proof (induction rs arbitrary: recs)
  case Nil
  then show ?case by simp
next
  case (Cons r rs)
  from Cons.prems obtain x xs where x: "face_record grps m r = Inr x"
    and xs: "face_records grps m rs = Inr xs" and recs: "recs = x # xs"
    by (auto split: sum.splits)
  have "fst x = r" using x by (auto simp: face_record_def split: option.splits list.splits if_splits)
  with Cons.IH [OF xs] x recs show ?case by auto
qed


lemma filter_eq_distinct:
  "distinct xs \<Longrightarrow> x \<in> set xs \<Longrightarrow> length (filter (\<lambda>k. k = x) xs) = 1"
  by (induction xs) (auto simp: filter_empty_conv)

lemma occurrences_mem:
  "(r, n) \<in> set (occurrences grps faces k) \<longleftrightarrow>
     r \<in> set faces \<and> set (face_vertex_tuple grps r) = k \<and> n = length (face_vertex_tuple grps r)"
  by (auto simp: occurrences_def)

lemma distinct_occurrences:
  "distinct faces \<Longrightarrow> distinct (map fst (occurrences grps faces k))"
  by (simp add: occurrences_def comp_def distinct_map_filter)

text \<open>What a record of a successful build says about the map.\<close>

lemma face_record_Interior:
  assumes "distinct faces" and "r \<in> set faces"
    and "face_record grps (build_face_map grps faces) r = Inr (r, Interior r')"
  shows "r' \<in> set faces \<and> r' \<noteq> r \<and>
         set (face_vertex_tuple grps r') = set (face_vertex_tuple grps r) \<and>
         face_record grps (build_face_map grps faces) r' = Inr (r', Interior r)"
proof -
  let ?k = "set (face_vertex_tuple grps r)"
  let ?occ = "occurrences grps faces ?k"
  from assms(3) obtain r1 n1 r2 where occ: "?occ = [(r1, n1), (r2, n1)]"
    and r': "r' = (if r = r1 then r2 else r1)"
    by (auto simp: face_record_def build_face_map_lookup
             split: option.splits list.splits if_splits)
  from distinct_occurrences [OF assms(1), of grps ?k] occ have ne: "r1 \<noteq> r2" by simp
  have "(r, length (face_vertex_tuple grps r)) \<in> set ?occ"
    using assms(2) by (simp add: occurrences_mem)
  then have r: "r = r1 \<or> r = r2" using occ by auto
  have "(r', n1) \<in> set ?occ" using occ r r' by auto
  then have in': "r' \<in> set faces" and k': "set (face_vertex_tuple grps r') = ?k"
    by (simp_all add: occurrences_mem)
  have "r' \<noteq> r" using r r' ne by auto
  moreover have "build_face_map grps faces (set (face_vertex_tuple grps r')) =
      Some [(r1, n1), (r2, n1)]"
    using occ by (simp add: build_face_map_lookup k')
  then have "face_record grps (build_face_map grps faces) r' =
      Inr (r', Interior (if r' = r1 then r2 else r1))"
    by (simp add: face_record_def)
  then have "face_record grps (build_face_map grps faces) r' = Inr (r', Interior r)"
    using r r' ne by auto
  ultimately show ?thesis using in' k' by simp
qed

text \<open>
  The build succeeds on a mesh of well-formed groups in which every vertex-index set
  belongs to one face, or to two faces of the same size.
\<close>

lemma face_records_succeed:
  assumes "\<And>r. r \<in> set rs \<Longrightarrow> \<exists>x. face_record grps m r = Inr x"
  shows "\<exists>recs. face_records grps m rs = Inr recs"
  using assms
proof (induction rs)
  case Nil
  show ?case by simp
next
  case (Cons r rs)
  from Cons.prems [of r] obtain x where "face_record grps m r = Inr x" by auto
  moreover from Cons obtain xs where "face_records grps m rs = Inr xs" by auto
  ultimately show ?case by simp
qed

lemma facial_adjacency_succeeds:
  assumes "list_all group_ok grps"
    and "\<And>r. r \<in> set (all_faces grps) \<Longrightarrow>
      (\<exists>a. occurrences grps (all_faces grps) (set (face_vertex_tuple grps r)) = [a]) \<or>
      (\<exists>r1 r2 n. occurrences grps (all_faces grps) (set (face_vertex_tuple grps r)) =
         [(r1, n), (r2, n)])"
  shows "\<exists>recs. facial_adjacency grps = Inr recs"
proof -
  have "\<exists>x. face_record grps (build_face_map grps (all_faces grps)) r = Inr x"
    if "r \<in> set (all_faces grps)" for r
    using assms(2) [OF that]
    by (cases r) (auto simp: face_record_def build_face_map_lookup)
  from face_records_succeed [of "all_faces grps", OF this] assms(1)
  show ?thesis by (simp add: facial_adjacency_def)
qed

text \<open>
  Claim C9. When the facial adjacency of a mesh is built without a topology error,
  every face of every element of every group has exactly one record, and the interior
  matches are mutual: when the record of a face \<open>r\<close> names the face \<open>r'\<close> as its
  neighbour, the record of \<open>r'\<close> names \<open>r\<close>, and the two faces have the same set of
  vertex indices.
\<close>

theorem facial_adjacency_records:
  assumes "facial_adjacency grps = Inr recs"
  shows "(\<forall>g < length grps. \<forall>e < length (vertex_indices (grps ! g)).
            \<forall>f < length (face_vertex_indices (grps ! g)).
              length (filter (\<lambda>x. fst x = (g, e, f)) recs) = 1) \<and>
         (\<forall>r r'. (r, Interior r') \<in> set recs \<longrightarrow>
            (r', Interior r) \<in> set recs \<and>
            set (face_vertex_tuple grps r') = set (face_vertex_tuple grps r))"
proof -
  let ?faces = "all_faces grps"
  let ?m = "build_face_map grps ?faces"
  from assms have recs: "face_records grps ?m ?faces = Inr recs"
    by (simp add: facial_adjacency_def split: if_splits)
  from face_records_map [OF recs]
  have keys: "map fst recs = ?faces"
    and each: "\<And>x. x \<in> set recs \<Longrightarrow> face_record grps ?m (fst x) = Inr x"
    by auto
  have d: "distinct (map fst recs)" by (simp add: keys distinct_all_faces)
  have once: "length (filter (\<lambda>x. fst x = r) recs) = 1" if "r \<in> set ?faces" for r
  proof -
    have "length (filter (\<lambda>x. fst x = r) recs) = length (filter (\<lambda>k. k = r) (map fst recs))"
      by (simp add: filter_map comp_def)
    also have "\<dots> = 1"
      using d that keys by (intro filter_eq_distinct) simp_all
    finally show ?thesis .
  qed
  have sym: "(r', Interior r) \<in> set recs \<and>
      set (face_vertex_tuple grps r') = set (face_vertex_tuple grps r)"
    if "(r, Interior r') \<in> set recs" for r r'
  proof -
    from that have rin: "r \<in> set ?faces" using keys by (metis fst_conv image_eqI set_map)
    from each [OF that] have "face_record grps ?m r = Inr (r, Interior r')" by simp
    from face_record_Interior [OF distinct_all_faces rin this]
    have r'in: "r' \<in> set ?faces"
      and k: "set (face_vertex_tuple grps r') = set (face_vertex_tuple grps r)"
      and rec: "face_record grps ?m r' = Inr (r', Interior r)" by auto
    from r'in keys obtain x where x: "x \<in> set recs" "fst x = r'"
      by (metis (no_types, lifting) imageE set_map)
    with each [OF x(1)] rec have "x = (r', Interior r)" by simp
    with x k show ?thesis by simp
  qed
  from once sym show ?thesis by (auto simp: set_all_faces)
qed

text \<open>
  Two triangles that share the edge between the vertices 1 and 2: face 2 of the first
  and face 0 of the second match each other, the other four faces are exterior.
\<close>

theorem facial_adjacency_records_witness:
  "facial_adjacency
      [\<lparr>vertex_indices = [[0, 1, 2], [2, 1, 3]],
        face_vertex_indices = [[0, 1], [2, 0], [1, 2]]\<rparr>] =
     Inr [((0, 0, 0), Boundary Exterior), ((0, 0, 1), Boundary Exterior),
          ((0, 0, 2), Interior (0, 1, 0)), ((0, 1, 0), Interior (0, 0, 2)),
          ((0, 1, 1), Boundary Exterior), ((0, 1, 2), Boundary Exterior)] \<and>
   length (filter (\<lambda>x. fst x = (0, 1, 0))
      [((0 :: nat, 0 :: nat, 0 :: nat), Boundary Exterior), ((0, 0, 1), Boundary Exterior),
       ((0, 0, 2), Interior (0, 1, 0)), ((0, 1, 0), Interior (0, 0, 2)),
       ((0, 1, 1), Boundary Exterior), ((0, 1, 2), Boundary Exterior)]) = 1 \<and>
   set (face_vertex_tuple
      [\<lparr>vertex_indices = [[0, 1, 2], [2, 1, 3]],
        face_vertex_indices = [[0, 1], [2, 0], [1, 2]]\<rparr>] (0, 1, 0)) =
   set (face_vertex_tuple
      [\<lparr>vertex_indices = [[0, 1, 2], [2, 1, 3]],
        face_vertex_indices = [[0, 1], [2, 0], [1, 2]]\<rparr>] (0, 0, 2))"
proof -
  let ?grps = "[\<lparr>vertex_indices = [[0, 1, 2], [2, 1, 3]],
                 face_vertex_indices = [[0, 1], [2, 0], [1, 2]]\<rparr>]"
  let ?recs = "[((0 :: nat, 0 :: nat, 0 :: nat), Boundary Exterior), ((0, 0, 1), Boundary Exterior),
       ((0, 0, 2), Interior (0, 1, 0)), ((0, 1, 0), Interior (0, 0, 2)),
       ((0, 1, 1), Boundary Exterior), ((0, 1, 2), Boundary Exterior)]"
  have ev: "facial_adjacency ?grps = Inr ?recs"
    by code_simp
  have once: "length (filter (\<lambda>x. fst x = (0, 1, 0)) ?recs) = 1"
    using facial_adjacency_records [OF ev, THEN conjunct1, rule_format, of 0 1 0]
    by simp
  have "set (face_vertex_tuple ?grps (0, 1, 0)) = set (face_vertex_tuple ?grps (0, 0, 2))"
    using facial_adjacency_records [OF ev, THEN conjunct2, rule_format, of "(0, 0, 2)" "(0, 1, 0)"]
    by simp
  with ev once show ?thesis by blast
qed

end
